theory Spec2Isabelle
  imports Main "HOL-Library.Word"
begin

section \<open>JavaScript string primitives used by robustJsonParse\<close>

text \<open>
  A JavaScript string is a finite sequence of 16-bit code units. \<open>cu c\<close> is the code
  unit of the character \<open>c\<close> (every character the function and the parser look for
  is below 128) and \<open>js s\<close> the JavaScript string of the characters of \<open>s\<close>.
\<close>

type_synonym code_unit = "16 word"

type_synonym js_string = "code_unit list"

definition cu :: "char \<Rightarrow> code_unit" where
  "cu c = of_nat (of_char c)"

definition js :: "string \<Rightarrow> js_string" where
  "js s = map cu s"

text \<open>
  \<open>indexOf\<close> and \<open>lastIndexOf\<close> are called with a one-character search string and
  no position: the index of the first (last) occurrence, or \<open>-1\<close>.
\<close>

primrec indexOf :: "js_string \<Rightarrow> code_unit \<Rightarrow> int" where
  "indexOf [] c = -1"
| "indexOf (x # xs) c =
     (if x = c then 0
      else (let i = indexOf xs c in if i = -1 then -1 else i + 1))"

primrec lastIndexOf :: "js_string \<Rightarrow> code_unit \<Rightarrow> int" where
  "lastIndexOf [] c = -1"
| "lastIndexOf (x # xs) c =
     (let i = lastIndexOf xs c
      in if i = -1 then (if x = c then 0 else -1) else i + 1)"

text \<open>
  \<open>String.prototype.substring(indexStart, indexEnd)\<close>: both arguments are clamped to
  \<open>0 .. length\<close>, and when the first exceeds the second they are swapped.
\<close>

definition substring :: "js_string \<Rightarrow> int \<Rightarrow> int \<Rightarrow> js_string" where
  "substring s indexStart indexEnd =
     (let len = int (length s);
          finalStart = min (max indexStart 0) len;
          finalEnd = min (max indexEnd 0) len;
          lo = min finalStart finalEnd;
          hi = max finalStart finalEnd
      in take (nat (hi - lo)) (drop (nat lo) s))"

section \<open>JSON.parse\<close>

text \<open>
  \<open>JSON.parse\<close> is the platform's parser (ECMA-262, 25.5.1, the grammar of ECMA-404),
  called without a reviver. The model decides exactly which texts are accepted and
  returns the parsed structure. A number and a string are kept as their lexemes (the
  characters of the literal, for a string those between the quotes), and an object as
  its members in source order: the JavaScript value is a function of these (the nearest
  double of the literal, the decoded escapes, the last member of each name), so equal
  results here are equal values there. \<open>None\<close> is the \<open>SyntaxError\<close> it throws.
  The text is cut into tokens, and the tokens are read by a pushdown automaton; no
  bound is put on the depth of nesting.
\<close>

datatype json =
    JNull
  | JBool bool
  | JNumber js_string
  | JString js_string
  | JArray "json list"
  | JObject "(js_string \<times> json) list"

datatype token =
    LBrace | RBrace | LBracket | RBracket | Colon | Comma
  | TString js_string | TNumber js_string | TTrue | TFalse | TNull

definition is_ws :: "code_unit \<Rightarrow> bool" where
  "is_ws c \<longleftrightarrow> c \<in> set (js [CHR 0x20, CHR 0x09, CHR 0x0A, CHR 0x0D])"

definition is_digit :: "code_unit \<Rightarrow> bool" where
  "is_digit c \<longleftrightarrow> c \<in> set (js ''0123456789'')"

definition is_hex :: "code_unit \<Rightarrow> bool" where
  "is_hex c \<longleftrightarrow> c \<in> set (js ''0123456789abcdefABCDEF'')"

definition is_escape :: "code_unit \<Rightarrow> bool" where
  "is_escape c \<longleftrightarrow>
     c \<in> set (js [CHR 0x22, CHR 0x5C, CHR ''/'', CHR ''b'', CHR ''f'', CHR ''n'', CHR ''r'', CHR ''t''])"

text \<open>
  The characters of a string literal after its opening quote, up to the closing quote:
  no raw control character (below U+0020), and a backslash only in one of the escapes
  \<open>\" \\ \/ \b \f \n \r \t \uXXXX\<close>. Returns the lexeme and the rest of the text.
\<close>

fun lex_string :: "js_string \<Rightarrow> js_string \<Rightarrow> (js_string \<times> js_string) option" where
  "lex_string [] acc = None"
| "lex_string (c # cs) acc =
     (if c = cu (CHR 0x22) then Some (rev acc, cs)
      else if c = cu (CHR 0x5C) then
        (case cs of
           [] \<Rightarrow> None
         | e # cs' \<Rightarrow>
             if is_escape e then lex_string cs' (e # c # acc)
             else if e = cu (CHR ''u'') then
               (case cs' of
                  h1 # h2 # h3 # h4 # cs'' \<Rightarrow>
                    if is_hex h1 \<and> is_hex h2 \<and> is_hex h3 \<and> is_hex h4
                    then lex_string cs'' (h4 # h3 # h2 # h1 # e # c # acc)
                    else None
                | _ \<Rightarrow> None)
             else None)
      else if c < 0x20 then None
      else lex_string cs (c # acc))"

text \<open>
  A number literal: \<open>-? (0 | [1-9][0-9]*) (. [0-9]+)? ([eE] [+-]? [0-9]+)?\<close>.
\<close>

definition int_part :: "js_string \<Rightarrow> (js_string \<times> js_string) option" where
  "int_part r =
     (case r of
        [] \<Rightarrow> None
      | d # r' \<Rightarrow>
          if d = cu (CHR ''0'') then Some ([d], r')
          else if is_digit d then Some (takeWhile is_digit r, dropWhile is_digit r)
          else None)"

definition frac_part :: "js_string \<Rightarrow> (js_string \<times> js_string) option" where
  "frac_part r =
     (case r of
        [] \<Rightarrow> Some ([], r)
      | d # r' \<Rightarrow>
          if d = cu (CHR ''.'') then
            (if takeWhile is_digit r' = [] then None
             else Some (d # takeWhile is_digit r', dropWhile is_digit r'))
          else Some ([], r))"

definition exp_sign :: "js_string \<Rightarrow> js_string \<times> js_string" where
  "exp_sign r =
     (case r of
        [] \<Rightarrow> ([], r)
      | s # r' \<Rightarrow> if s = cu (CHR ''+'') \<or> s = cu (CHR ''-'') then ([s], r') else ([], r))"

definition exp_part :: "js_string \<Rightarrow> (js_string \<times> js_string) option" where
  "exp_part r =
     (case r of
        [] \<Rightarrow> Some ([], r)
      | e # r' \<Rightarrow>
          if e = cu (CHR ''e'') \<or> e = cu (CHR ''E'') then
            (case exp_sign r' of
               (sg, r'') \<Rightarrow>
                 if takeWhile is_digit r'' = [] then None
                 else Some (e # sg @ takeWhile is_digit r'', dropWhile is_digit r''))
          else Some ([], r))"

definition lex_number :: "js_string \<Rightarrow> (js_string \<times> js_string) option" where
  "lex_number cs =
     (case (case cs of
              [] \<Rightarrow> ([], cs)
            | c # r \<Rightarrow> if c = cu (CHR ''-'') then ([c], r) else ([], cs)) of
        (sign, r0) \<Rightarrow>
          (case int_part r0 of
             None \<Rightarrow> None
           | Some (ip, r1) \<Rightarrow>
               (case frac_part r1 of
                  None \<Rightarrow> None
                | Some (fp, r2) \<Rightarrow>
                    (case exp_part r2 of
                       None \<Rightarrow> None
                     | Some (ep, r3) \<Rightarrow> Some (sign @ ip @ fp @ ep, r3)))))"

lemma lex_string_shorter:
  "lex_string cs acc = Some (str, rest) \<Longrightarrow> length rest < length cs"
proof (induction cs acc rule: lex_string.induct)
  case (1 acc)
  then show ?case by simp
next
  case (2 c cs acc)
  then show ?case
    by (simp split: if_splits list.splits) fastforce+
qed

lemma int_part_shorter: "int_part r = Some (ip, r1) \<Longrightarrow> length r1 < length r"
  by (cases r)
     (auto simp: int_part_def less_Suc_eq_le length_dropWhile_le split: if_splits)

lemma frac_part_shorter: "frac_part r = Some (fp, r1) \<Longrightarrow> length r1 \<le> length r"
  by (cases r)
     (auto simp: frac_part_def le_Suc_eq length_dropWhile_le split: if_splits)

lemma exp_sign_shorter: "exp_sign r = (sg, r1) \<Longrightarrow> length r1 \<le> length r"
  by (cases r) (auto simp: exp_sign_def split: if_splits)

lemma exp_part_shorter: "exp_part r = Some (ep, r1) \<Longrightarrow> length r1 \<le> length r"
proof (cases r)
  case Nil
  assume "exp_part r = Some (ep, r1)"
  with Nil show ?thesis by (simp add: exp_part_def)
next
  case (Cons e r')
  assume a: "exp_part r = Some (ep, r1)"
  obtain sg r'' where s: "exp_sign r' = (sg, r'')" by (cases "exp_sign r'")
  have "length r'' \<le> length r'" using s by (rule exp_sign_shorter)
  moreover have "length (dropWhile is_digit r'') \<le> length r''"
    by (rule length_dropWhile_le)
  ultimately show ?thesis
    using a Cons s by (auto simp: exp_part_def split: if_splits)
qed

lemma lex_number_shorter:
  assumes "lex_number cs = Some (num, rest)"
  shows "length rest < length cs"
proof -
  obtain sign r0 where r0:
    "(case cs of [] \<Rightarrow> ([], cs) | c # r \<Rightarrow> if c = cu (CHR ''-'') then ([c], r) else ([], cs)) = (sign, r0)"
    by (cases "(case cs of [] \<Rightarrow> ([], cs) | c # r \<Rightarrow> if c = cu (CHR ''-'') then ([c], r) else ([], cs))")
  have l0: "length r0 \<le> length cs"
    using r0 by (cases cs) (auto split: if_splits)
  from assms r0 obtain ip r1 fp r2 ep where
    i: "int_part r0 = Some (ip, r1)" and f: "frac_part r1 = Some (fp, r2)"
    and e: "exp_part r2 = Some (ep, rest)"
    by (auto simp: lex_number_def split: option.splits)
  from int_part_shorter [OF i] frac_part_shorter [OF f] exp_part_shorter [OF e] l0
  show ?thesis by linarith
qed

text \<open>
  The tokens of a text. White space is the four characters of \<open>is_ws\<close>; anything that
  starts no token is a syntax error.
\<close>

function lex :: "js_string \<Rightarrow> token list option" where
  "lex [] = Some []"
| "lex (c # cs) =
     (if is_ws c then lex cs
      else if c = cu (CHR ''{'') then map_option ((#) LBrace) (lex cs)
      else if c = cu (CHR ''}'') then map_option ((#) RBrace) (lex cs)
      else if c = cu (CHR ''['') then map_option ((#) LBracket) (lex cs)
      else if c = cu (CHR '']'') then map_option ((#) RBracket) (lex cs)
      else if c = cu (CHR '':'') then map_option ((#) Colon) (lex cs)
      else if c = cu (CHR '','') then map_option ((#) Comma) (lex cs)
      else if c = cu (CHR 0x22) then
        (case lex_string cs [] of
           None \<Rightarrow> None
         | Some (str, rest) \<Rightarrow> map_option ((#) (TString str)) (lex rest))
      else if c = cu (CHR ''-'') \<or> is_digit c then
        (case lex_number (c # cs) of
           None \<Rightarrow> None
         | Some (num, rest) \<Rightarrow> map_option ((#) (TNumber num)) (lex rest))
      else if take 4 (c # cs) = js ''true'' then map_option ((#) TTrue) (lex (drop 3 cs))
      else if take 5 (c # cs) = js ''false'' then map_option ((#) TFalse) (lex (drop 4 cs))
      else if take 4 (c # cs) = js ''null'' then map_option ((#) TNull) (lex (drop 3 cs))
      else None)"
  by pat_completeness auto
termination
proof (relation "measure length")
  fix c cs x2 str rest
  assume "lex_string cs [] = Some x2" "(str, rest) = x2"
  then have "length rest < length cs" by (auto dest: lex_string_shorter)
  then show "(rest, c # cs) \<in> measure length" by simp
next
  fix c cs x2 num rest
  assume "lex_number (c # cs) = Some x2" "(num, rest) = x2"
  then have "length rest < length (c # cs)" by (auto dest: lex_number_shorter)
  then show "(rest, c # cs) \<in> measure length" by simp
qed auto

text \<open>
  The parser: a pushdown automaton over the tokens. A frame is an open array with the
  elements read so far, an open object with its members, or an open object with a
  member name whose value is still to come.
\<close>

datatype frame =
    FArray "json list"
  | FObject "(js_string \<times> json) list"
  | FMember "(js_string \<times> json) list" js_string

datatype expect = Value | ValueOrClose | KeyOrClose | Key | ColonNext | CommaOrClose

datatype pstate = Expect expect "frame list" | Finished json

fun complete :: "json \<Rightarrow> frame list \<Rightarrow> pstate option" where
  "complete v [] = Some (Finished v)"
| "complete v (FArray elems # st) = Some (Expect CommaOrClose (FArray (elems @ [v]) # st))"
| "complete v (FMember membs k # st) = Some (Expect CommaOrClose (FObject (membs @ [(k, v)]) # st))"
| "complete v (FObject membs # st) = None"

definition start_value :: "token \<Rightarrow> frame list \<Rightarrow> pstate option" where
  "start_value t st =
     (case t of
        LBrace \<Rightarrow> Some (Expect KeyOrClose (FObject [] # st))
      | LBracket \<Rightarrow> Some (Expect ValueOrClose (FArray [] # st))
      | TString s \<Rightarrow> complete (JString s) st
      | TNumber n \<Rightarrow> complete (JNumber n) st
      | TTrue \<Rightarrow> complete (JBool True) st
      | TFalse \<Rightarrow> complete (JBool False) st
      | TNull \<Rightarrow> complete JNull st
      | _ \<Rightarrow> None)"

definition close_array :: "frame list \<Rightarrow> pstate option" where
  "close_array st = (case st of FArray elems # st' \<Rightarrow> complete (JArray elems) st' | _ \<Rightarrow> None)"

definition close_object :: "frame list \<Rightarrow> pstate option" where
  "close_object st = (case st of FObject membs # st' \<Rightarrow> complete (JObject membs) st' | _ \<Rightarrow> None)"

definition read_key :: "token \<Rightarrow> frame list \<Rightarrow> pstate option" where
  "read_key t st =
     (case t of
        TString k \<Rightarrow>
          (case st of
             FObject membs # st' \<Rightarrow> Some (Expect ColonNext (FMember membs k # st'))
           | _ \<Rightarrow> None)
      | _ \<Rightarrow> None)"

fun step :: "pstate \<Rightarrow> token \<Rightarrow> pstate option" where
  "step (Finished v) t = None"
| "step (Expect Value st) t = start_value t st"
| "step (Expect ValueOrClose st) t =
     (if t = RBracket then close_array st else start_value t st)"
| "step (Expect KeyOrClose st) t =
     (if t = RBrace then close_object st else read_key t st)"
| "step (Expect Key st) t = read_key t st"
| "step (Expect ColonNext st) t = (if t = Colon then Some (Expect Value st) else None)"
| "step (Expect CommaOrClose st) t =
     (case t of
        Comma \<Rightarrow>
          (case st of
             FArray elems # st' \<Rightarrow> Some (Expect Value st)
           | FObject membs # st' \<Rightarrow> Some (Expect Key st)
           | _ \<Rightarrow> None)
      | RBracket \<Rightarrow> close_array st
      | RBrace \<Rightarrow> close_object st
      | _ \<Rightarrow> None)"

fun run :: "pstate \<Rightarrow> token list \<Rightarrow> pstate option" where
  "run p [] = Some p"
| "run p (t # ts) = (case step p t of None \<Rightarrow> None | Some p' \<Rightarrow> run p' ts)"

definition JSON_parse :: "js_string \<Rightarrow> json option" where
  "JSON_parse text =
     (case lex text of
        None \<Rightarrow> None
      | Some ts \<Rightarrow>
          (case run (Expect Value []) ts of
             Some (Finished v) \<Rightarrow> Some v
           | _ \<Rightarrow> None))"

section \<open>robustJsonParse\<close>

text \<open>
  The function throws \<open>new Error(message)\<close> at three places; an error carries its
  message and nothing else. Before the third throw it writes three lines to
  \<open>console.error\<close>: the console is the only state the function touches, and it is
  passed in and returned. A console line is the label and the value printed after it.
\<close>

datatype error = Error (message: string)

datatype logged = SyntaxError | Text js_string

type_synonym console = "(string \<times> logged) list"

abbreviation no_json_found :: error where
  "no_json_found \<equiv> Error ''No JSON object or array found in the response.''"

abbreviation no_valid_end :: error where
  "no_valid_end \<equiv> Error ''Could not find a valid end for the JSON content.''"

abbreviation not_parsed :: error where
  "not_parsed \<equiv> Error ''The AI returned a response that could not be parsed as JSON.''"

text \<open>
  \<open>startIndex\<close>, \<open>endIndex\<close> and \<open>jsonSubString\<close> are the local variables of the
  source, each as a function of the argument \<open>jsonString\<close>; the first throw happens
  before the end is looked for.
\<close>

definition startIndex :: "js_string \<Rightarrow> error + int" where
  "startIndex jsonString =
     (let firstBrace = indexOf jsonString (cu (CHR ''{''));
          firstBracket = indexOf jsonString (cu (CHR ''[''))
      in if firstBrace = -1 \<and> firstBracket = -1 then Inl no_json_found
         else if firstBrace = -1 then Inr firstBracket
         else if firstBracket = -1 then Inr firstBrace
         else Inr (min firstBrace firstBracket))"

definition endIndex :: "js_string \<Rightarrow> int" where
  "endIndex jsonString =
     (let lastBrace = lastIndexOf jsonString (cu (CHR ''}''));
          lastBracket = lastIndexOf jsonString (cu (CHR '']''))
      in max lastBrace lastBracket)"

definition jsonSubString :: "js_string \<Rightarrow> error + js_string" where
  "jsonSubString jsonString =
     (case startIndex jsonString of
        Inl e \<Rightarrow> Inl e
      | Inr start \<Rightarrow>
          if endIndex jsonString = -1 then Inl no_valid_end
          else Inr (substring jsonString start (endIndex jsonString + 1)))"

definition robustJsonParse :: "js_string \<Rightarrow> console \<Rightarrow> (error + json) \<times> console" where
  "robustJsonParse jsonString con =
     (case jsonSubString jsonString of
        Inl e \<Rightarrow> (Inl e, con)
      | Inr sub \<Rightarrow>
          (case JSON_parse sub of
             Some v \<Rightarrow> (Inr v, con)
           | None \<Rightarrow>
               (Inl not_parsed,
                con @ [(''Failed to parse JSON substring:'', SyntaxError),
                       (''Original string:'', Text jsonString),
                       (''Extracted substring:'', Text sub)])))"

text \<open>
  The two failure kinds of the specification: an \<open>ExtractionError\<close> is either of the
  two errors thrown before the parser is called, a \<open>DecodeError\<close> the one thrown when
  the parser fails.
\<close>

definition ExtractionError :: "error \<Rightarrow> bool" where
  "ExtractionError e \<longleftrightarrow> e = no_json_found \<or> e = no_valid_end"

definition DecodeError :: "error \<Rightarrow> bool" where
  "DecodeError e \<longleftrightarrow> e = not_parsed"

definition has_opening :: "js_string \<Rightarrow> bool" where
  "has_opening s \<longleftrightarrow> cu (CHR ''{'') \<in> set s \<or> cu (CHR ''['') \<in> set s"

definition has_closing :: "js_string \<Rightarrow> bool" where
  "has_closing s \<longleftrightarrow> cu (CHR ''}'') \<in> set s \<or> cu (CHR '']'') \<in> set s"

definition is_opening :: "code_unit \<Rightarrow> bool" where
  "is_opening c \<longleftrightarrow> c = cu (CHR ''{'') \<or> c = cu (CHR ''['')"

definition is_closing :: "code_unit \<Rightarrow> bool" where
  "is_closing c \<longleftrightarrow> c = cu (CHR ''}'') \<or> c = cu (CHR '']'')"

section \<open>The extraction algorithm as the specification words it\<close>

text \<open>
  The index of the first and of the last occurrence of a character that occurs, the
  start index ("the smaller of the two if both are present, or whichever is present
  if only one is"), the end index ("the larger of the two found") and the characters
  at the positions from the start index to the end index inclusive.
\<close>

definition first_index :: "js_string \<Rightarrow> code_unit \<Rightarrow> nat" where
  "first_index s c = length (takeWhile (\<lambda>x. x \<noteq> c) s)"

definition last_index :: "js_string \<Rightarrow> code_unit \<Rightarrow> nat" where
  "last_index s c = length s - 1 - length (takeWhile (\<lambda>x. x \<noteq> c) (rev s))"

definition spec_start_index :: "js_string \<Rightarrow> nat" where
  "spec_start_index s =
     (if cu (CHR ''{'') \<in> set s \<and> cu (CHR ''['') \<in> set s
      then min (first_index s (cu (CHR ''{''))) (first_index s (cu (CHR ''['')))
      else if cu (CHR ''{'') \<in> set s then first_index s (cu (CHR ''{''))
      else first_index s (cu (CHR ''['')))"

definition spec_end_index :: "js_string \<Rightarrow> nat" where
  "spec_end_index s =
     (if cu (CHR ''}'') \<in> set s \<and> cu (CHR '']'') \<in> set s
      then max (last_index s (cu (CHR ''}''))) (last_index s (cu (CHR '']'')))
      else if cu (CHR ''}'') \<in> set s then last_index s (cu (CHR ''}''))
      else last_index s (cu (CHR '']'')))"

definition spec_span :: "js_string \<Rightarrow> js_string" where
  "spec_span s = map ((!) s) [spec_start_index s ..< Suc (spec_end_index s)]"

section \<open>Indices and the extracted substring\<close>

text \<open>
  \<open>indexOf\<close> and \<open>lastIndexOf\<close> in terms of \<open>takeWhile\<close>, the start and the end index
  in terms of the two classes of delimiters, and the extraction on a string cut into
  a prefix with no opening delimiter, a middle part that starts with an opening and
  ends with a closing delimiter, and a suffix with no closing delimiter.
\<close>

lemma length_takeWhile_lt: "\<exists>x\<in>set s. \<not> P x \<Longrightarrow> length (takeWhile P s) < length s"
  by (induction s) auto

lemma length_takeWhile_all: "\<forall>x\<in>set s. P x \<Longrightarrow> length (takeWhile P s) = length s"
  by (induction s) auto

lemma indexOf_eq:
  "indexOf s c = (if c \<in> set s then int (length (takeWhile (\<lambda>x. x \<noteq> c) s)) else -1)"
  by (induction s) (auto simp: Let_def)

lemma lastIndexOf_eq:
  "lastIndexOf s c = int (length s) - 1 - int (length (takeWhile (\<lambda>x. x \<noteq> c) (rev s)))"
proof (induction s)
  case Nil
  show ?case by simp
next
  case (Cons x xs)
  show ?case
  proof (cases "c \<in> set xs")
    case True
    then have "takeWhile (\<lambda>x. x \<noteq> c) (rev xs @ [x]) = takeWhile (\<lambda>x. x \<noteq> c) (rev xs)"
      by (intro takeWhile_append1 [of c]) auto
    moreover have "length (takeWhile (\<lambda>x. x \<noteq> c) (rev xs)) < length xs"
      using True length_takeWhile_lt [of "rev xs" "\<lambda>x. x \<noteq> c"] by auto
    ultimately show ?thesis using Cons by (simp add: Let_def)
  next
    case False
    then have "takeWhile (\<lambda>x. x \<noteq> c) (rev xs @ [x]) = rev xs @ takeWhile (\<lambda>x. x \<noteq> c) [x]"
      by (intro takeWhile_append2) auto
    moreover have "length (takeWhile (\<lambda>x. x \<noteq> c) (rev xs)) = length (rev xs)"
      by (rule length_takeWhile_all) (use False in auto)
    ultimately show ?thesis using Cons by (simp add: Let_def)
  qed
qed

lemma length_takeWhile_conj:
  "length (takeWhile (\<lambda>x. P x \<and> Q x) s) = min (length (takeWhile P s)) (length (takeWhile Q s))"
  by (induction s) auto

lemma not_is_opening: "(\<not> is_opening x) = (x \<noteq> cu (CHR ''{'') \<and> x \<noteq> cu (CHR ''[''))"
  by (simp add: is_opening_def)

lemma not_is_closing: "(\<not> is_closing x) = (x \<noteq> cu (CHR ''}'') \<and> x \<noteq> cu (CHR '']''))"
  by (simp add: is_closing_def)

lemma has_opening_iff: "has_opening s \<longleftrightarrow> (\<exists>x\<in>set s. is_opening x)"
  by (auto simp: has_opening_def is_opening_def)

lemma has_closing_iff: "has_closing s \<longleftrightarrow> (\<exists>x\<in>set s. is_closing x)"
  by (auto simp: has_closing_def is_closing_def)

lemma takeWhile_absent: "c \<notin> set s \<Longrightarrow> length (takeWhile (\<lambda>x. x \<noteq> c) s) = length s"
  by (rule length_takeWhile_all) auto

lemma startIndex_eq:
  "startIndex s =
     (if has_opening s then Inr (int (length (takeWhile (\<lambda>x. \<not> is_opening x) s)))
      else Inl no_json_found)"
proof -
  have le: "length (takeWhile (\<lambda>x. x \<noteq> c) s) \<le> length s" for c
    by (rule length_takeWhile_le)
  show ?thesis
    using le [of "cu (CHR ''{'')"] le [of "cu (CHR ''['')"]
    by (auto simp: startIndex_def indexOf_eq has_opening_def not_is_opening
        length_takeWhile_conj takeWhile_absent Let_def)
qed

lemma endIndex_eq:
  "endIndex s = int (length s) - 1 - int (length (takeWhile (\<lambda>x. \<not> is_closing x) (rev s)))"
  by (simp add: endIndex_def lastIndexOf_eq not_is_closing length_takeWhile_conj Let_def)

lemma endIndex_none: "endIndex s = -1 \<longleftrightarrow> \<not> has_closing s"
proof (cases "has_closing s")
  case True
  then have "\<exists>x\<in>set (rev s). \<not> \<not> is_closing x" by (simp add: has_closing_iff)
  then have "length (takeWhile (\<lambda>x. \<not> is_closing x) (rev s)) < length (rev s)"
    by (rule length_takeWhile_lt)
  with True show ?thesis by (simp add: endIndex_eq)
next
  case False
  then have "\<forall>x\<in>set (rev s). \<not> is_closing x" by (simp add: has_closing_iff)
  then have "length (takeWhile (\<lambda>x. \<not> is_closing x) (rev s)) = length (rev s)"
    by (rule length_takeWhile_all)
  with False show ?thesis by (simp add: endIndex_eq)
qed

lemma substring_take_drop:
  "0 \<le> a \<Longrightarrow> a \<le> b \<Longrightarrow> b \<le> int (length s) \<Longrightarrow>
   substring s a b = take (nat (b - a)) (drop (nat a) s)"
  by (simp add: substring_def Let_def min_def max_def)

lemma jsonSubString_decomp:
  assumes pre: "\<forall>x\<in>set pre. \<not> is_opening x"
    and mid: "mid \<noteq> []" "is_opening (hd mid)" "is_closing (last mid)"
    and post: "\<forall>x\<in>set post. \<not> is_closing x"
  shows "jsonSubString (pre @ mid @ post) = Inr mid"
proof -
  let ?s = "pre @ mid @ post"
  obtain h t where ht: "mid = h # t" using mid(1) by (cases mid) auto
  obtain b l where bl: "mid = b @ [l]" using mid(1) by (cases mid rule: rev_cases) auto
  have ho: "is_opening h" using mid(2) ht by simp
  have lc: "is_closing l" using mid(3) bl by simp
  have op: "has_opening ?s" unfolding has_opening_iff using ho ht by auto
  have "takeWhile (\<lambda>x. \<not> is_opening x) (pre @ (h # t @ post))
        = pre @ takeWhile (\<lambda>x. \<not> is_opening x) (h # t @ post)"
    by (rule takeWhile_append2) (use pre in auto)
  then have tw1: "takeWhile (\<lambda>x. \<not> is_opening x) ?s = pre"
    using ho by (simp add: ht)
  have "takeWhile (\<lambda>x. \<not> is_closing x) (rev post @ (l # rev b @ rev pre))
        = rev post @ takeWhile (\<lambda>x. \<not> is_closing x) (l # rev b @ rev pre)"
    by (rule takeWhile_append2) (use post in auto)
  then have tw2: "takeWhile (\<lambda>x. \<not> is_closing x) (rev ?s) = rev post"
    using lc by (simp add: bl)
  have st: "startIndex ?s = Inr (int (length pre))"
    using op by (simp add: startIndex_eq tw1 del: append_assoc)
  have en: "endIndex ?s = int (length pre) + int (length mid) - 1"
    unfolding endIndex_eq tw2 by simp
  have "substring ?s (int (length pre)) (int (length pre) + int (length mid) - 1 + 1) = mid"
    by (subst substring_take_drop) (auto)
  moreover have "int (length pre) + int (length mid) \<noteq> 0"
    using mid(1) by (cases mid) auto
  ultimately show ?thesis
    by (simp add: jsonSubString_def st en)
qed



lemma map_nth_take_drop:
  "j \<le> length s \<Longrightarrow> map ((!) s) [i..<j] = take (j - i) (drop i s)"
  by (rule nth_equalityI) auto

lemma spec_start_index_eq:
  "has_opening s \<Longrightarrow> spec_start_index s = length (takeWhile (\<lambda>x. \<not> is_opening x) s)"
proof -
  have le: "length (takeWhile (\<lambda>x. x \<noteq> c) s) \<le> length s" for c
    by (rule length_takeWhile_le)
  show "has_opening s \<Longrightarrow> ?thesis"
    using le [of "cu (CHR ''{'')"] le [of "cu (CHR ''['')"]
    by (auto simp: spec_start_index_def first_index_def has_opening_def not_is_opening
        length_takeWhile_conj takeWhile_absent)
qed

lemma spec_end_index_eq:
  assumes "has_closing s"
  shows "int (spec_end_index s) = endIndex s"
proof -
  have lt: "c \<in> set s \<Longrightarrow> length (takeWhile (\<lambda>x. x \<noteq> c) (rev s)) < length s" for c
    using length_takeWhile_lt [of "rev s" "\<lambda>x. x \<noteq> c"] by auto
  have ab: "c \<notin> set s \<Longrightarrow> length (takeWhile (\<lambda>x. x \<noteq> c) (rev s)) = length s" for c
    using takeWhile_absent [of c "rev s"] by simp
  show ?thesis
    using assms lt [of "cu (CHR ''}'')"] lt [of "cu (CHR '']'')"] ab [of "cu (CHR ''}'')"] ab [of "cu (CHR '']'')"]
    by (auto simp: spec_end_index_def last_index_def has_closing_def endIndex_eq
        not_is_closing length_takeWhile_conj)
qed


lemma robustJsonParse_unfold:
  "jsonSubString s = Inr sub \<Longrightarrow>
   robustJsonParse s con =
     (case JSON_parse sub of
        Some v \<Rightarrow> (Inr v, con)
      | None \<Rightarrow>
          (Inl not_parsed,
           con @ [(''Failed to parse JSON substring:'', SyntaxError),
                  (''Original string:'', Text s),
                  (''Extracted substring:'', Text sub)]))"
  by (simp add: robustJsonParse_def)

lemma jsonSubString_cases:
  "jsonSubString s =
     (if \<not> has_opening s then Inl no_json_found
      else if \<not> has_closing s then Inl no_valid_end
      else Inr (substring s (int (length (takeWhile (\<lambda>x. \<not> is_opening x) s)))
                  (endIndex s + 1)))"
  by (simp add: jsonSubString_def startIndex_eq endIndex_none)

lemma robustJsonParse_extraction_iff:
  "(\<exists>e. fst (robustJsonParse s con) = Inl e \<and> ExtractionError e)
   \<longleftrightarrow> \<not> has_opening s \<or> \<not> has_closing s"
  by (auto simp: robustJsonParse_def jsonSubString_cases ExtractionError_def
      split: option.splits)

lemma parse_object_a1: \<open>JSON_parse (js ''{"a":1}'') = Some (JObject [(js ''a'', JNumber (js ''1''))])\<close>
  by code_simp

lemma parse_broken_member: \<open>JSON_parse (js ''{"a": }'') = None\<close>
  by code_simp

lemma substring_broken_member: \<open>jsonSubString (js ''{"a": }'') = Inr (js ''{"a": }'')\<close>
  by code_simp

lemma substring_two_fragments:
  \<open>jsonSubString (js ''noise {"a":1} more noise [1,2,3] tail'') = Inr (js ''{"a":1} more noise [1,2,3]'')\<close>
  by code_simp

lemma parse_two_fragments: \<open>JSON_parse (js ''{"a":1} more noise [1,2,3]'') = None\<close>
  by code_simp

lemma substring_fenced:
  \<open>jsonSubString (js (''```json'' @ [CHR 0x0A] @ ''{"a":1}'' @ [CHR 0x0A] @ ''```'')) = Inr (js ''{"a":1}'')\<close>
  by code_simp

text \<open>
  The console is only appended to: the result and the lines printed do not depend on
  what the console held before the call.
\<close>

lemma robustJsonParse_console:
  "\<exists>r out. \<forall>con. robustJsonParse s con = (r, con @ out)"
proof (cases "jsonSubString s")
  case (Inl e)
  then have "\<forall>con. robustJsonParse s con = (Inl e, con @ [])"
    by (simp add: robustJsonParse_def)
  then show ?thesis by blast
next
  case (Inr sub)
  show ?thesis
  proof (cases "JSON_parse sub")
    case None
    with Inr have "\<forall>con. robustJsonParse s con =
        (Inl not_parsed, con @ [(''Failed to parse JSON substring:'', SyntaxError),
                (''Original string:'', Text s),
                (''Extracted substring:'', Text sub)])"
      by (simp add: robustJsonParse_def)
    then show ?thesis by blast
  next
    case (Some v)
    with Inr have "\<forall>con. robustJsonParse s con = (Inr v, con @ [])"
      by (simp add: robustJsonParse_def)
    then show ?thesis by blast
  qed
qed

section \<open>The claims\<close>

text \<open>
  C1. A string made of one well-formed JSON object or array (a text that starts with
  an opening delimiter, ends with a closing delimiter and is accepted by \<open>JSON.parse\<close>)
  between two stretches of prose that contain none of the four delimiters: the call
  succeeds, returns what parsing the fragment alone returns, and prints nothing.
\<close>

theorem robustJsonParse_embedded_fragment:
  assumes "\<forall>x\<in>set pre. \<not> is_opening x \<and> \<not> is_closing x"
    and "\<forall>x\<in>set post. \<not> is_opening x \<and> \<not> is_closing x"
    and "frag \<noteq> []" "is_opening (hd frag)" "is_closing (last frag)"
    and "JSON_parse frag = Some v"
  shows "robustJsonParse (pre @ frag @ post) con = (Inr v, con)"
proof -
  have "jsonSubString (pre @ frag @ post) = Inr frag"
    using assms(1-5) by (intro jsonSubString_decomp) auto
  then show ?thesis
    using assms(6) by (simp add: robustJsonParse_unfold)
qed

theorem robustJsonParse_embedded_fragment_witness:
  \<open>JSON_parse (js ''{"a":1}'') = Some (JObject [(js ''a'', JNumber (js ''1''))]) \<and>
   robustJsonParse (js ''Sure, here it is: '' @ js ''{"a":1}'' @ js '' Hope this helps!'') []
     = (Inr (JObject [(js ''a'', JNumber (js ''1''))]), [])\<close>
proof -
  have 1: "\<forall>x\<in>set (js ''Sure, here it is: ''). \<not> is_opening x \<and> \<not> is_closing x"
    by code_simp
  have 2: "\<forall>x\<in>set (js '' Hope this helps!''). \<not> is_opening x \<and> \<not> is_closing x"
    by code_simp
  have 3: \<open>js ''{"a":1}'' \<noteq> []\<close> by code_simp
  have 4: \<open>is_opening (hd (js ''{"a":1}''))\<close> by code_simp
  have 5: \<open>is_closing (last (js ''{"a":1}''))\<close> by code_simp
  show ?thesis
    using robustJsonParse_embedded_fragment [OF 1 2 3 4 5 parse_object_a1, of "[]"]
      parse_object_a1
    by simp
qed

text \<open>
  C2, as stated: for every string with an opening and a closing delimiter, the
  substring handed to the parser is the span from the start index to the end index,
  both endpoints included. It fails when the start index exceeds the end index:
  \<open>substring\<close> swaps its arguments, so for \<open>] x {\<close> (start 4, end 0) the parser is
  handed \<open>substring(1, 4)\<close>, the three characters strictly between the two
  delimiters, and neither endpoint.
\<close>

theorem jsonSubString_span_counterexample:
  "has_opening (js ''] x {'') \<and> has_closing (js ''] x {'') \<and>
   spec_start_index (js ''] x {'') = 4 \<and> spec_end_index (js ''] x {'') = 0 \<and>
   jsonSubString (js ''] x {'') = Inr (js '' x '') \<and>
   jsonSubString (js ''] x {'') \<noteq> Inr (spec_span (js ''] x {'')) \<and>
   cu (CHR ''{'') \<notin> set (js '' x '') \<and> cu (CHR '']'') \<notin> set (js '' x '')"
  by code_simp

text \<open>
  C2, amended: for every string with an opening and a closing delimiter whose start
  index (the smaller of the first indices of \<open>{\<close> and \<open>[\<close>, or the one present) is
  not greater than its end index (the larger of the last indices of \<open>}\<close> and \<open>]\<close>),
  the substring handed to the parser is the characters from the start index to the
  end index inclusive.
\<close>

theorem jsonSubString_span:
  assumes "has_opening s" and "has_closing s"
    and "spec_start_index s \<le> spec_end_index s"
  shows "jsonSubString s = Inr (spec_span s)"
proof -
  let ?a = "spec_start_index s"
  let ?e = "spec_end_index s"
  have a: "int ?a = int (length (takeWhile (\<lambda>x. \<not> is_opening x) s))"
    using assms(1) by (simp add: spec_start_index_eq)
  have e: "int ?e = endIndex s"
    using assms(2) by (rule spec_end_index_eq)
  have "endIndex s < int (length s)" by (simp add: endIndex_eq)
  then have el: "?e < length s" using e by linarith
  have "jsonSubString s = Inr (substring s (int ?a) (int ?e + 1))"
    using assms(1,2) a e by (simp add: jsonSubString_cases)
  also have "substring s (int ?a) (int ?e + 1) = take (nat (int ?e + 1 - int ?a)) (drop (nat (int ?a)) s)"
    using assms(3) el by (intro substring_take_drop) auto
  also have "\<dots> = take (Suc ?e - ?a) (drop ?a s)"
    using assms(3) by (simp add: nat_diff_distrib Suc_diff_le nat_add_distrib)
  also have "\<dots> = map ((!) s) [?a..<Suc ?e]"
    using el by (intro map_nth_take_drop [symmetric]) simp
  finally show ?thesis by (simp only: spec_span_def)
qed

theorem jsonSubString_span_witness:
  \<open>spec_span (js ''ab {"k": [1]} cd'') = (js ''{"k": [1]}'') \<and>
   jsonSubString (js ''ab {"k": [1]} cd'') = Inr (js ''{"k": [1]}'')\<close>
proof -
  have 1: \<open>has_opening (js ''ab {"k": [1]} cd'')\<close> by code_simp
  have 2: \<open>has_closing (js ''ab {"k": [1]} cd'')\<close> by code_simp
  have 3: \<open>spec_start_index (js ''ab {"k": [1]} cd'') \<le> spec_end_index (js ''ab {"k": [1]} cd'')\<close>
    by code_simp
  have 4: \<open>spec_span (js ''ab {"k": [1]} cd'') = (js ''{"k": [1]}'')\<close> by code_simp
  show ?thesis using jsonSubString_span [OF 1 2 3] 4 by simp
qed

text \<open>
  C3, as stated: when decoding fails, the error raised carries the original string
  and the extracted substring. It does not: the error is \<open>new Error\<close> of a fixed
  message. Two inputs with different raw strings and different extracted substrings
  raise the same error, so neither can be read back from it.
\<close>

theorem robustJsonParse_decode_error_counterexample:
  \<open>fst (robustJsonParse (js ''{"a": }'') []) = Inl not_parsed \<and>
   fst (robustJsonParse (js ''[1 2]'') []) = Inl not_parsed \<and>
   jsonSubString (js ''{"a": }'') = Inr (js ''{"a": }'') \<and>
   jsonSubString (js ''[1 2]'') = Inr (js ''[1 2]'') \<and>
   js ''{"a": }'' \<noteq> js ''[1 2]'' \<and>
   message not_parsed = ''The AI returned a response that could not be parsed as JSON.''\<close>
  by code_simp

text \<open>
  C3, amended: whenever the extracted substring is not valid JSON, the failure raised
  to the caller is the \<open>DecodeError\<close> (an error with the fixed message), and the
  original string and the extracted substring are written to the console, after a
  line for the parser's error; for the input \<open>{"a": }\<close> the extracted substring
  written there is \<open>{"a": }\<close>.
\<close>

theorem robustJsonParse_decode_error:
  \<open>(jsonSubString s = Inr sub \<and> JSON_parse sub = None \<longrightarrow>
      robustJsonParse s con =
        (Inl not_parsed,
         con @ [(''Failed to parse JSON substring:'', SyntaxError),
                (''Original string:'', Text s),
                (''Extracted substring:'', Text sub)]) \<and>
      DecodeError not_parsed) \<and>
   robustJsonParse (js ''{"a": }'') con =
     (Inl not_parsed,
      con @ [(''Failed to parse JSON substring:'', SyntaxError),
             (''Original string:'', Text (js ''{"a": }'')),
             (''Extracted substring:'', Text (js ''{"a": }''))])\<close>
  by (simp only: robustJsonParse_unfold [OF substring_broken_member] parse_broken_member)
     (simp add: robustJsonParse_unfold DecodeError_def)

theorem robustJsonParse_decode_error_witness:
  \<open>jsonSubString (js ''Result: [1 2] (done)'') = Inr (js ''[1 2]'') \<and>
   JSON_parse (js ''[1 2]'') = None \<and>
   robustJsonParse (js ''Result: [1 2] (done)'') [] =
     (Inl not_parsed,
      [(''Failed to parse JSON substring:'', SyntaxError),
       (''Original string:'', Text (js ''Result: [1 2] (done)'')),
       (''Extracted substring:'', Text (js ''[1 2]''))])\<close>
proof -
  have 1: "jsonSubString (js ''Result: [1 2] (done)'') = Inr (js ''[1 2]'')" by code_simp
  have 2: "JSON_parse (js ''[1 2]'') = None" by code_simp
  show ?thesis
    using robustJsonParse_decode_error [of "(js ''Result: [1 2] (done)'')" "(js ''[1 2]'')" "[]"] 1 2
    by simp
qed

text \<open>
  C4. The call fails with an \<open>ExtractionError\<close> if and only if the input has no
  opening delimiter or has no closing delimiter; for the empty string it fails with
  the first of the two.
\<close>

theorem robustJsonParse_extraction_error_iff:
  "((\<exists>e. fst (robustJsonParse s con) = Inl e \<and> ExtractionError e)
      \<longleftrightarrow> \<not> has_opening s \<or> \<not> has_closing s) \<and>
   fst (robustJsonParse [] con) = Inl no_json_found \<and> ExtractionError no_json_found"
  by (simp add: robustJsonParse_extraction_iff)
     (simp add: robustJsonParse_def jsonSubString_cases has_opening_def ExtractionError_def)

theorem robustJsonParse_extraction_error_iff_witness:
  "(\<exists>e. fst (robustJsonParse (js ''no json here'') []) = Inl e \<and> ExtractionError e) \<and>
   (\<exists>e. fst (robustJsonParse (js ''closed] only'') []) = Inl e \<and> ExtractionError e) \<and>
   \<not> (\<exists>e. fst (robustJsonParse (js ''[1 2]'') []) = Inl e \<and> ExtractionError e)"
proof -
  have 1: "\<not> has_opening (js ''no json here'')" by code_simp
  have 2: "\<not> has_opening (js ''closed] only'')" by code_simp
  have 3: "has_opening (js ''[1 2]'') \<and> has_closing (js ''[1 2]'')" by code_simp
  show ?thesis
    using robustJsonParse_extraction_error_iff [of "(js ''no json here'')" "[]"]
      robustJsonParse_extraction_error_iff [of "(js ''closed] only'')" "[]"]
      robustJsonParse_extraction_error_iff [of "(js ''[1 2]'')" "[]"] 1 2 3
    by simp
qed

text \<open>
  C5. A string with a \<open>{\<close> and neither \<open>}\<close> nor \<open>]\<close> fails with the
  \<open>ExtractionError\<close> for a missing end, not with a \<open>DecodeError\<close>, and prints nothing.
\<close>

theorem robustJsonParse_unclosed_brace:
  assumes "cu (CHR ''{'') \<in> set s" and "cu (CHR ''}'') \<notin> set s" and "cu (CHR '']'') \<notin> set s"
  shows "robustJsonParse s con = (Inl no_valid_end, con) \<and>
         ExtractionError no_valid_end \<and> \<not> DecodeError no_valid_end"
  using assms
  by (simp add: robustJsonParse_def jsonSubString_cases has_opening_def has_closing_def
      ExtractionError_def DecodeError_def)

theorem robustJsonParse_unclosed_brace_witness:
  \<open>robustJsonParse (js ''{"a": 1'') [] = (Inl no_valid_end, []) \<and>
   ExtractionError no_valid_end \<and> \<not> DecodeError no_valid_end\<close>
proof -
  have 1: \<open>cu (CHR ''{'') \<in> set (js ''{"a": 1'')\<close> by code_simp
  have 2: \<open>cu (CHR ''}'') \<notin> set (js ''{"a": 1'')\<close> by code_simp
  have 3: \<open>cu (CHR '']'') \<notin> set (js ''{"a": 1'')\<close> by code_simp
  show ?thesis using robustJsonParse_unclosed_brace [OF 1 2 3, of "[]"] by simp
qed

text \<open>
  C6. A string whose only opening delimiter is \<open>[\<close>, with no closing delimiter after
  it, is to fail with an \<open>ExtractionError\<close>, also when a closing delimiter occurs
  before the \<open>[\<close>. The code does not do so on \<open>] 1 [\<close>: the end is looked for in the
  whole string and only \<open>-1\<close> is refused, so the \<open>]\<close> at index 0 is taken as the end
  (start 4, end 0), \<open>substring(4, 1)\<close> swaps its arguments, the parser is handed the
  three characters between the two delimiters, and the call returns the number 1,
  which is no JSON object or array of the input.
\<close>

theorem robustJsonParse_unclosed_bracket_failing_input:
  "indexOf (js ''] 1 ['') (cu (CHR ''{'')) = -1 \<and> indexOf (js ''] 1 ['') (cu (CHR ''['')) = 4 \<and>
   lastIndexOf (js ''] 1 ['') (cu (CHR '']'')) = 0 \<and> lastIndexOf (js ''] 1 ['') (cu (CHR ''}'')) = -1 \<and>
   startIndex (js ''] 1 ['') = Inr 4 \<and> endIndex (js ''] 1 ['') = 0 \<and>
   jsonSubString (js ''] 1 ['') = Inr (js '' 1 '') \<and>
   robustJsonParse (js ''] 1 ['') [] = (Inr (JNumber (js ''1'')), [])"
  by code_simp

text \<open>
  Where no closing delimiter occurs at all, a string whose only opening delimiter is
  \<open>[\<close> does fail with the \<open>ExtractionError\<close> for a missing end, and nothing is handed
  to the parser or printed.
\<close>

lemma robustJsonParse_unclosed_bracket:
  assumes "cu (CHR ''['') \<in> set s" and "cu (CHR ''{'') \<notin> set s" and "\<not> has_closing s"
  shows "robustJsonParse s con = (Inl no_valid_end, con) \<and> ExtractionError no_valid_end"
  using assms
  by (simp add: robustJsonParse_def jsonSubString_cases has_opening_def
      ExtractionError_def)

text \<open>
  C7. For \<open>noise {"a":1} more noise [1,2,3] tail\<close> the extracted substring is the
  span from the first \<open>{\<close> to the last \<open>]\<close>, which is not valid JSON, and the call
  fails with the \<open>DecodeError\<close>.
\<close>

theorem robustJsonParse_two_fragments:
  \<open>jsonSubString (js ''noise {"a":1} more noise [1,2,3] tail'') = Inr (js ''{"a":1} more noise [1,2,3]'') \<and>
   JSON_parse (js ''{"a":1} more noise [1,2,3]'') = None \<and>
   fst (robustJsonParse (js ''noise {"a":1} more noise [1,2,3] tail'') con) = Inl not_parsed \<and>
   DecodeError not_parsed\<close>
  by (simp only: robustJsonParse_unfold [OF substring_two_fragments] parse_two_fragments
      substring_two_fragments)
     (simp add: DecodeError_def)

text \<open>
  C8. For the object \<open>{"a":1}\<close> inside markdown fences, each on a line of its own,
  the call succeeds and returns the object with the single member \<open>a\<close> of value 1.
\<close>

theorem robustJsonParse_fenced:
  \<open>robustJsonParse (js (''```json'' @ [CHR 0x0A] @ ''{"a":1}'' @ [CHR 0x0A] @ ''```'')) con
     = (Inr (JObject [(js ''a'', JNumber (js ''1''))]), con)\<close>
  by (simp only: robustJsonParse_unfold [OF substring_fenced] parse_object_a1 option.case)

text \<open>
  C9. Two calls on the same string, the second in the state the first left, give the
  same result (the same value, or the same error), and each appends the same lines
  to the console.
\<close>

theorem robustJsonParse_deterministic:
  "fst (robustJsonParse s (snd (robustJsonParse s con))) = fst (robustJsonParse s con) \<and>
   (\<exists>out. snd (robustJsonParse s con) = con @ out \<and>
          snd (robustJsonParse s (snd (robustJsonParse s con))) = con @ out @ out)"
proof -
  obtain r out where "\<forall>con. robustJsonParse s con = (r, con @ out)"
    using robustJsonParse_console by blast
  then show ?thesis by simp
qed

text \<open>
  C10. When the start index is at most the end index, the substring passed to the
  parser is not empty, begins with \<open>{\<close> or \<open>[\<close> and ends with \<open>}\<close> or \<open>]\<close>.
\<close>

theorem jsonSubString_delimited:
  assumes "startIndex s = Inr i" and "i \<le> endIndex s"
  shows "\<exists>sub. jsonSubString s = Inr sub \<and> sub \<noteq> [] \<and> is_opening (hd sub) \<and> is_closing (last sub)"
proof -
  let ?a = "length (takeWhile (\<lambda>x. \<not> is_opening x) s)"
  let ?b = "length (takeWhile (\<lambda>x. \<not> is_closing x) (rev s))"
  have op: "has_opening s" and i: "i = int ?a"
    using assms(1) by (auto simp: startIndex_eq split: if_splits)
  have e: "endIndex s = int (length s) - 1 - int ?b" by (rule endIndex_eq)
  have ab: "?a + ?b < length s" using assms(2) i e by linarith
  have cl: "has_closing s"
    using assms(2) i endIndex_none [of s] by auto
  let ?n = "length s - ?b - ?a"
  let ?sub = "take ?n (drop ?a s)"
  have n: "0 < ?n" using ab by linarith
  have "substring s i (endIndex s + 1) = take (nat (endIndex s + 1 - i)) (drop (nat i) s)"
    using ab i e by (intro substring_take_drop) auto
  moreover have "nat (endIndex s + 1 - i) = ?n" using ab i e by linarith
  ultimately have sub: "jsonSubString s = Inr ?sub"
    using op cl i by (simp add: jsonSubString_cases)
  have ne: "?sub \<noteq> []" using ab by auto
  have "hd ?sub = s ! ?a"
    using n ab by (simp add: hd_drop_conv_nth)
  moreover have "\<not> \<not> is_opening (s ! ?a)"
    using ab by (intro nth_length_takeWhile) auto
  ultimately have h: "is_opening (hd ?sub)" by simp
  have len: "length ?sub = ?n" using ab by simp
  have idx: "?a + (?n - 1) = length s - Suc ?b" using ab by linarith
  have "last ?sub = ?sub ! (?n - 1)"
    using ne len by (simp add: last_conv_nth)
  also have "\<dots> = s ! (?a + (?n - 1))"
    using n ab by simp
  also have "\<dots> = rev s ! ?b"
    using ab idx by (simp add: rev_nth)
  finally have "last ?sub = rev s ! ?b" .
  moreover have "\<not> \<not> is_closing (rev s ! ?b)"
    using ab by (intro nth_length_takeWhile) auto
  ultimately have l: "is_closing (last ?sub)" by simp
  show ?thesis using sub ne h l by blast
qed

theorem jsonSubString_delimited_witness:
  "startIndex (js ''x [1] y'') = Inr 2 \<and> endIndex (js ''x [1] y'') = 4 \<and>
   (\<exists>sub. jsonSubString (js ''x [1] y'') = Inr sub \<and> sub \<noteq> [] \<and>
      is_opening (hd sub) \<and> is_closing (last sub))"
proof -
  have 1: "startIndex (js ''x [1] y'') = Inr 2" by code_simp
  have 2: "endIndex (js ''x [1] y'') = 4" by code_simp
  have 3: "2 \<le> endIndex (js ''x [1] y'')" by (simp add: 2)
  show ?thesis
    using jsonSubString_delimited [OF 1 3] 1 2 by simp
qed

end
